theory Spec2Isabelle
  imports Main "HOL-Library.Sublist"
begin

section \<open>Python strings\<close>

text \<open>
  A Python \<^verbatim>\<open>str\<close> is modelled as a HOL \<^typ>\<open>string\<close>: the character numbered \<open>n\<close>
  stands for the code point \<open>U+n\<close>, so the texts of the model range over
  \<open>U+0000 .. U+00FF\<close> and \<^const>\<open>length\<close> counts code points, as Python's \<^verbatim>\<open>len\<close> does.
  The definitions below give \<^verbatim>\<open>str.lower\<close>, \<^verbatim>\<open>str.isspace\<close>, \<^verbatim>\<open>str.strip\<close>,
  \<^verbatim>\<open>str.split()\<close>, \<^verbatim>\<open>str.join\<close> and the operator \<^verbatim>\<open>in\<close> on that range.
\<close>

definition lower_char :: "char \<Rightarrow> char" where
  "lower_char c =
     (let n = (of_char c :: nat)
      in if (65 \<le> n \<and> n \<le> 90) \<or> (192 \<le> n \<and> n \<le> 222 \<and> n \<noteq> 215)
         then char_of (n + 32) else c)"

definition str_lower :: "string \<Rightarrow> string" where
  "str_lower s = map lower_char s"

definition isspace :: "char \<Rightarrow> bool" where
  "isspace c =
     (let n = (of_char c :: nat)
      in (9 \<le> n \<and> n \<le> 13) \<or> (28 \<le> n \<and> n \<le> 32) \<or> n = 133 \<or> n = 160)"

definition strip :: "string \<Rightarrow> string" where
  "strip s = rev (dropWhile isspace (rev (dropWhile isspace s)))"

text \<open>\<^verbatim>\<open>s.split()\<close>: the maximal runs of non-whitespace characters, in order.\<close>

fun split_ws :: "string \<Rightarrow> string \<Rightarrow> string list" where
  "split_ws cur [] = (if cur = [] then [] else [cur])"
| "split_ws cur (c # cs) =
     (if isspace c then (if cur = [] then split_ws [] cs else cur # split_ws [] cs)
      else split_ws (cur @ [c]) cs)"

definition str_split :: "string \<Rightarrow> string list" where
  "str_split s = split_ws [] s"

fun str_join :: "string \<Rightarrow> string list \<Rightarrow> string" where
  "str_join sep [] = []"
| "str_join sep [x] = x"
| "str_join sep (x # y # ys) = x @ sep @ str_join sep (y # ys)"

fun startswith :: "string \<Rightarrow> string \<Rightarrow> bool" where
  "startswith s [] = True"
| "startswith [] (p # ps) = False"
| "startswith (c # cs) (p # ps) = (c = p \<and> startswith cs ps)"

text \<open>\<^verbatim>\<open>p in s\<close>: \<open>p\<close> occurs in \<open>s\<close> as a contiguous substring.\<close>

fun str_in :: "string \<Rightarrow> string \<Rightarrow> bool" where
  "str_in p [] = (p = [])"
| "str_in p (c # cs) = (startswith (c # cs) p \<or> str_in p cs)"

section \<open>Keyword Matcher\<close>

text \<open>
  \<^verbatim>\<open>contains_keywords(self, text)\<close>; the configured list \<^verbatim>\<open>self.keywords\<close> is the
  first argument. \<open>keyword_loop\<close> is the \<^verbatim>\<open>for keyword in self.keywords\<close> loop with its
  accumulator \<^verbatim>\<open>matched\<close>.
\<close>

fun keyword_loop :: "string \<Rightarrow> string list \<Rightarrow> string list \<Rightarrow> string list" where
  "keyword_loop text_lower [] matched = matched"
| "keyword_loop text_lower (keyword # rest) matched =
     keyword_loop text_lower rest
       (if str_in (str_lower keyword) text_lower then matched @ [keyword] else matched)"

definition contains_keywords :: "string list \<Rightarrow> string \<Rightarrow> bool \<times> string list" where
  "contains_keywords keywords text =
     (if keywords = [] then (True, [])
      else (let text_lower = str_lower text;
                matched = keyword_loop text_lower keywords []
            in (length matched > 0, matched)))"

text \<open>
  The specification's reading of a match: the lowercase form of the keyword occurs as a
  substring of the lowercase haystack.
\<close>

definition occurs_in :: "string \<Rightarrow> string \<Rightarrow> bool" where
  "occurs_in keyword haystack =
     (\<exists>before after. str_lower haystack = before @ str_lower keyword @ after)"

section \<open>Regular expressions\<close>

text \<open>
  The patterns of the source are regular expressions of Python's \<^verbatim>\<open>re\<close> module, a
  backtracking matcher. \<open>rmatch r s\<close> lists the remainders of \<open>s\<close> after every way of
  matching \<open>r\<close> at the start of \<open>s\<close>, in the order in which the matcher tries them:
  the left alternative first, an optional or repeated part taken before it is left out
  (greedy). The head of the list is the match that Python reports. \<open>NotAhead\<close> is the
  negative lookahead \<^verbatim>\<open>(?!...)\<close>. A repetition stops at an iteration that consumes
  nothing.
\<close>

datatype regex =
    Cls "char \<Rightarrow> bool"
  | Seq regex regex
  | Alt regex regex
  | Opt regex
  | Star regex
  | NotAhead regex

fun star_iter :: "(string \<Rightarrow> string list) \<Rightarrow> nat \<Rightarrow> string \<Rightarrow> string list" where
  "star_iter m 0 s = [s]"
| "star_iter m (Suc n) s =
     concat (map (star_iter m n) (filter (\<lambda>t. length t < length s) (m s))) @ [s]"

fun rmatch :: "regex \<Rightarrow> string \<Rightarrow> string list" where
  "rmatch (Cls p) s = (case s of [] \<Rightarrow> [] | c # cs \<Rightarrow> if p c then [cs] else [])"
| "rmatch (Seq a b) s = concat (map (rmatch b) (rmatch a s))"
| "rmatch (Alt a b) s = rmatch a s @ rmatch b s"
| "rmatch (Opt a) s = rmatch a s @ [s]"
| "rmatch (Star a) s = star_iter (rmatch a) (length s) s"
| "rmatch (NotAhead a) s = (if rmatch a s = [] then [s] else [])"

definition Plus :: "regex \<Rightarrow> regex" where
  "Plus a = Seq a (Star a)"

definition Empty :: regex where
  "Empty = Opt (Cls (\<lambda>c. False))"

text \<open>A literal string, and a literal string under \<^verbatim>\<open>re.IGNORECASE\<close>.\<close>

fun Lit :: "string \<Rightarrow> regex" where
  "Lit [] = Empty"
| "Lit [x] = Cls ((=) x)"
| "Lit (x # y # ys) = Seq (Cls ((=) x)) (Lit (y # ys))"

definition same_letter :: "char \<Rightarrow> char \<Rightarrow> bool" where
  "same_letter x c = (lower_char c = lower_char x)"

fun Lit_i :: "string \<Rightarrow> regex" where
  "Lit_i [] = Empty"
| "Lit_i [x] = Cls (same_letter x)"
| "Lit_i (x # y # ys) = Seq (Cls (same_letter x)) (Lit_i (y # ys))"

fun Alts :: "regex list \<Rightarrow> regex" where
  "Alts [] = Cls (\<lambda>c. False)"
| "Alts [r] = r"
| "Alts (r # q # rs) = Alt r (Alts (q # rs))"

text \<open>
  The first match at the start of \<open>s\<close>; with \<open>must_advance\<close> an empty match is passed
  over (the matcher's rule after an empty match at the same position).
\<close>

definition match_at :: "regex \<Rightarrow> bool \<Rightarrow> string \<Rightarrow> string option" where
  "match_at r must_advance s =
     (case filter (\<lambda>rest. \<not> must_advance \<or> length rest < length s) (rmatch r s) of
        [] \<Rightarrow> None
      | rest # _ \<Rightarrow> Some rest)"

text \<open>
  The scan shared by \<^verbatim>\<open>re.findall\<close>, \<^verbatim>\<open>re.split\<close> and \<^verbatim>\<open>re.sub\<close>: the non-overlapping
  matches from left to right, each with the unmatched text before it, and the unmatched
  text after the last match. The last branch of the \<open>Some\<close> case is never taken
  (a remainder is a suffix of \<open>s\<close>).
\<close>

function scan :: "regex \<Rightarrow> bool \<Rightarrow> string \<Rightarrow> string \<Rightarrow> (string \<times> string) list \<times> string" where
  "scan r must_advance gap s =
     (case match_at r must_advance s of
        Some rest \<Rightarrow>
          if length rest < length s then
            (let (found, tail) = scan r False [] rest
             in ((gap, take (length s - length rest) s) # found, tail))
          else if \<not> must_advance \<and> length rest = length s then
            (let (found, tail) = scan r True [] s
             in ((gap, []) # found, tail))
          else ([], gap @ s)
      | None \<Rightarrow>
          (case s of
             [] \<Rightarrow> ([], gap)
           | c # cs \<Rightarrow> scan r False (gap @ [c]) cs))"
  by pat_completeness auto
termination
  by (relation "measures [\<lambda>(r, m, g, s). length s, \<lambda>(r, m, g, s). if m then 0 else 1]") auto

declare scan.simps [simp del]

definition findall :: "regex \<Rightarrow> string \<Rightarrow> string list" where
  "findall r s = map snd (fst (scan r False [] s))"

definition re_split :: "regex \<Rightarrow> string \<Rightarrow> string list" where
  "re_split r s = (let (found, tail) = scan r False [] s in map fst found @ [tail])"

fun sub_pieces :: "string \<Rightarrow> (string \<times> string) list \<Rightarrow> string" where
  "sub_pieces repl [] = []"
| "sub_pieces repl ((gap, m) # found) = gap @ repl @ sub_pieces repl found"

text \<open>\<^verbatim>\<open>re.sub(r, repl, s)\<close> for a replacement without group references.\<close>

definition re_sub :: "regex \<Rightarrow> string \<Rightarrow> string \<Rightarrow> string" where
  "re_sub r repl s = (let (found, tail) = scan r False [] s in sub_pieces repl found @ tail)"

text \<open>The character classes \<^verbatim>\<open>\d\<close>, \<^verbatim>\<open>[A-Z]\<close> and \<^verbatim>\<open>[a-z]\<close>; \<^verbatim>\<open>\s\<close> is \<^const>\<open>isspace\<close>.\<close>

definition isdigit :: "char \<Rightarrow> bool" where
  "isdigit c = (let n = (of_char c :: nat) in 48 \<le> n \<and> n \<le> 57)"

definition is_AZ :: "char \<Rightarrow> bool" where
  "is_AZ c = (let n = (of_char c :: nat) in 65 \<le> n \<and> n \<le> 90)"

definition is_az :: "char \<Rightarrow> bool" where
  "is_az c = (let n = (of_char c :: nat) in 97 \<le> n \<and> n \<le> 122)"

section \<open>Entity and Summary Extractor\<close>

text \<open>
  \<^verbatim>\<open>generate_summary(self, content, title, keywords)\<close>. The sentences are the pieces of
  \<^verbatim>\<open>re.split(r'[.!?]+', content)\<close>; \<open>relevant_loop\<close> is the loop that collects
  \<^verbatim>\<open>relevant_sentences\<close>, with its \<^verbatim>\<open>break\<close> at six.
\<close>

definition sentence_terminal :: "char \<Rightarrow> bool" where
  "sentence_terminal c = (c = CHR ''.'' \<or> c = CHR ''!'' \<or> c = CHR ''?'')"

definition sentence_end :: regex where
  "sentence_end = Plus (Cls sentence_terminal)"

definition mentions :: "string \<Rightarrow> string \<Rightarrow> bool" where
  "mentions sentence_lower kw = str_in (str_lower kw) sentence_lower"

fun relevant_loop :: "string list \<Rightarrow> string list \<Rightarrow> string list \<Rightarrow> string list" where
  "relevant_loop keywords [] relevant_sentences = relevant_sentences"
| "relevant_loop keywords (s # rest) relevant_sentences =
     (let sentence = strip s
      in if length sentence > 30 then
           (let sentence_lower = str_lower sentence
            in if list_ex (mentions sentence_lower) keywords then
                 (let relevant_sentences = relevant_sentences @ [sentence]
                  in if length relevant_sentences \<ge> 6 then relevant_sentences
                     else relevant_loop keywords rest relevant_sentences)
               else relevant_loop keywords rest relevant_sentences)
         else relevant_loop keywords rest relevant_sentences)"

definition nonblank :: "string \<Rightarrow> bool" where
  "nonblank s = (strip s \<noteq> [])"

text \<open>
  The marker of the keyword line is the one code point of the source above \<open>U+00FF\<close>
  (\<open>U+1F3AF\<close>); it is written here in its UTF-8 encoding. Nothing in the program reads
  it back.
\<close>

definition keyword_line :: "string list \<Rightarrow> string" where
  "keyword_line keywords =
     [CHR 0x0A, CHR 0x0A, CHR 0xF0, CHR 0x9F, CHR 0x8E, CHR 0xAF]
       @ '' Relevant keywords found: '' @ str_join '', '' keywords"

definition generate_summary :: "string \<Rightarrow> string \<Rightarrow> string list \<Rightarrow> string" where
  "generate_summary content title keywords =
     (let sentences = re_split sentence_end content;
          relevant_sentences = relevant_loop keywords sentences [];
          summary =
            (if relevant_sentences \<noteq> [] then str_join ''. '' relevant_sentences @ ''.''
             else str_join ''. '' (map strip (filter nonblank (take 2 sentences))) @ ''.'')
      in if keywords \<noteq> [] then summary @ keyword_line keywords else summary)"

text \<open>
  \<^verbatim>\<open>extract_entities(self, text)\<close>. The amount pattern is compiled with
  \<^verbatim>\<open>re.IGNORECASE\<close>, which only its letters feel; of its currency signs the euro sign is
  outside the range of the model.
\<close>

definition currency_sign :: "char \<Rightarrow> bool" where
  "currency_sign c = (c = CHR ''$'' \<or> c = CHR 0xA3 \<or> c = CHR 0xA5)"

definition digit_or_comma :: "char \<Rightarrow> bool" where
  "digit_or_comma c = (isdigit c \<or> c = CHR '','')"

definition amount_pattern :: regex where
  "amount_pattern =
     Seq (Cls currency_sign)
    (Seq (Plus (Cls digit_or_comma))
    (Seq (Opt (Seq (Cls ((=) CHR ''.'')) (Seq (Cls isdigit) (Cls isdigit))))
    (Seq (Star (Cls isspace))
         (Opt (Alts [Lit_i ''million'', Lit_i ''billion'', Lit_i ''thousand'',
                     Lit_i ''M'', Lit_i ''B'', Lit_i ''K''])))))"

text \<open>\<^verbatim>\<open>[A-Z][a-z]+(?:\s+[A-Z][a-z]+)*\<close>, the tail of two of the agency patterns.\<close>

definition capitalised_words :: regex where
  "capitalised_words =
     Seq (Cls is_AZ) (Seq (Plus (Cls is_az))
       (Star (Seq (Plus (Cls isspace)) (Seq (Cls is_AZ) (Plus (Cls is_az))))))"

definition agency_patterns :: "regex list" where
  "agency_patterns =
     [Seq (Lit ''Department of '') capitalised_words,
      Alts [Lit ''DOD'', Lit ''Pentagon'', Lit ''CIA'', Lit ''FBI'', Lit ''NSA'', Lit ''DHS'',
            Lit ''ICE'', Lit ''CBP''],
      Seq (Lit ''Office of '') capitalised_words]"

fun agency_loop :: "regex list \<Rightarrow> string \<Rightarrow> string list \<Rightarrow> string list" where
  "agency_loop [] text agencies = agencies"
| "agency_loop (pattern # rest) text agencies =
     agency_loop rest text (agencies @ findall pattern text)"

definition company_indicators :: "string list" where
  "company_indicators =
     [''Inc'', ''Corp'', ''LLC'', ''Ltd'', ''Technologies'', ''Systems'', ''GmbH'']"

definition has_indicator :: "string \<Rightarrow> string \<Rightarrow> bool" where
  "has_indicator word indicator = str_in indicator word"

text \<open>
  The loop over \<^verbatim>\<open>enumerate(words)\<close>; \<open>i - 2\<close> on \<^typ>\<open>nat\<close> is \<^verbatim>\<open>max(0, i-2)\<close>, and the
  slice \<^verbatim>\<open>words[start:i+1]\<close> is a \<^const>\<open>take\<close> of a \<^const>\<open>drop\<close>.
\<close>

fun company_loop :: "string list \<Rightarrow> (nat \<times> string) list \<Rightarrow> string list \<Rightarrow> string list" where
  "company_loop words [] companies = companies"
| "company_loop words ((i, word) # rest) companies =
     company_loop words rest
       (if list_ex (has_indicator word) company_indicators then
          (let start = i - 2;
               company = str_join '' '' (take (i + 1 - start) (drop start words))
           in if length company > 5 then companies @ [company] else companies)
        else companies)"

record entities =
  companies :: "string list"
  agencies :: "string list"
  amounts :: "string list"
  people :: "string list"

text \<open>
  The last loop of the function passes every list through \<^verbatim>\<open>list(set(...))[:5]\<close>. The
  order in which Python enumerates a set of strings is not fixed by the program, so the
  enumeration is the parameter \<open>set_order\<close>.
\<close>

definition extract_entities :: "(string list \<Rightarrow> string list) \<Rightarrow> string \<Rightarrow> entities" where
  "extract_entities set_order text =
     (let found_amounts = take 5 (findall amount_pattern text);
          found_agencies = agency_loop agency_patterns text [];
          words = str_split text;
          found_companies = company_loop words (enumerate 0 words) []
      in \<lparr> companies = take 5 (set_order found_companies),
           agencies = take 5 (set_order found_agencies),
           amounts = take 5 (set_order found_amounts),
           people = take 5 (set_order []) \<rparr>)"

section \<open>Data model\<close>

text \<open>
  A feed entry as the feed parser returns it: a field is \<open>None\<close> when the entry does
  not carry the attribute. \<open>entry_content\<close> holds the \<^verbatim>\<open>value\<close>s of the content blocks.
\<close>

record entry =
  entry_link :: "string option"
  entry_title :: "string option"
  entry_published :: "string option"
  entry_updated :: "string option"
  entry_content :: "string list option"
  entry_summary :: "string option"
  entry_description :: "string option"

record feed =
  feed_title :: string
  feed_url :: string
  feed_type :: string

record item =
  item_id :: string
  item_title :: string
  item_content :: string
  item_summary :: string
  item_url :: string
  item_date :: string
  item_source :: string
  item_source_type :: string
  item_keywords :: "string list"
  item_entities :: entities

text \<open>
  The values a pickled history can hold, as far as the programs tell them apart: a
  string (a timestamp) or a dictionary (an article record). A Python \<^verbatim>\<open>dict\<close> keeps
  insertion order, so it is an association list with distinct keys.
\<close>

datatype pyval = PyStr string | PyDict item

type_synonym ledger = "(string \<times> pyval) list"

fun dict_set :: "('k \<times> 'v) list \<Rightarrow> 'k \<Rightarrow> 'v \<Rightarrow> ('k \<times> 'v) list" where
  "dict_set [] k v = [(k, v)]"
| "dict_set ((k', v') # rest) k v =
     (if k' = k then (k', v) # rest else (k', v') # dict_set rest k v)"

definition dict_has :: "('k \<times> 'v) list \<Rightarrow> 'k \<Rightarrow> bool" where
  "dict_has d k = (map_of d k \<noteq> None)"

text \<open>
  A \<^verbatim>\<open>datetime\<close>: the wall-clock fields as microseconds from 0001-01-01T00:00:00, and
  the offset from UTC when the value carries a time zone. Python's datetimes span the
  years 1 to 9999 and its \<^verbatim>\<open>timedelta\<close>s at most 999999999 days in either direction;
  a \<^verbatim>\<open>timedelta\<close> or a difference outside these bounds raises \<^verbatim>\<open>OverflowError\<close>
  (\<open>None\<close> below).
\<close>

record pydatetime =
  wall_us :: int
  utcoffset_us :: "int option"

definition instant :: "pydatetime \<Rightarrow> int" where
  "instant d = wall_us d - (case utcoffset_us d of None \<Rightarrow> 0 | Some off \<Rightarrow> off)"

definition day_us :: int where
  "day_us = 86400000000"

definition datetime_max :: int where
  "datetime_max = 3652059 * day_us - 1"

definition timedelta_days :: "int \<Rightarrow> int option" where
  "timedelta_days d =
     (if - 999999999 \<le> d \<and> d \<le> 999999999 then Some (d * day_us) else None)"

definition datetime_sub :: "int \<Rightarrow> int \<Rightarrow> int option" where
  "datetime_sub wall delta =
     (if 0 \<le> wall - delta \<and> wall - delta \<le> datetime_max then Some (wall - delta) else None)"

text \<open>
  What becomes of an attempt to write a file: it is written; the attempt raises before
  the file is touched; or it raises after the file has been opened for writing, which
  leaves a file that does not unpickle.
\<close>

datatype write_result = Written | Refused | Broken

text \<open>
  What the program takes from outside: the feed parser (\<open>None\<close> when it raises), the
  date parser (\<open>None\<close> when it raises), the markup stripper (\<open>None\<close> when it raises), the
  enumeration of a set, the system clock as the sequence of its readings (wall-clock
  microseconds UTC), the local ISO rendering of a reading, and what the operating
  system does with a write to a path.
\<close>

record env =
  fetch :: "string \<Rightarrow> entry list option"
  parse_date :: "string \<Rightarrow> pydatetime option"
  get_text :: "string \<Rightarrow> string option"
  set_order :: "string list \<Rightarrow> string list"
  clock :: "nat \<Rightarrow> int"
  isoformat :: "int \<Rightarrow> string"
  write_result :: "string \<Rightarrow> write_result"

text \<open>
  The fields of the processor object that the pipeline uses; \<open>ticks\<close> is the number of
  clock readings taken so far (the state of the clock, threaded with the object).
\<close>

record processor =
  opml_file :: "string option"
  output_dir :: string
  "keywords" :: "string list"
  days_back :: int
  feeds :: "feed list"
  results :: "(string \<times> item) list"
  processed_items :: ledger
  ticks :: nat

section \<open>Recency Filter\<close>

text \<open>
  \<^verbatim>\<open>is_recent(self, entry)\<close>, with the clock and the number of readings taken so far;
  the result is the answer and the number of readings afterwards. The clock is read
  (\<^verbatim>\<open>datetime.now(timezone.utc)\<close>) only once the date string has parsed. Every path on
  which the source catches an exception or finds no date string ends in \<open>True\<close>: a
  date that does not parse, a lookback that is no \<^verbatim>\<open>timedelta\<close>, a cutoff that is no
  \<^verbatim>\<open>datetime\<close>.
\<close>

definition is_recent ::
  "(string \<Rightarrow> pydatetime option) \<Rightarrow> int \<Rightarrow> (nat \<Rightarrow> int) \<Rightarrow> nat \<Rightarrow> entry \<Rightarrow> bool \<times> nat" where
  "is_recent parse days clk t e =
     (let date_str = (case entry_published e of
                        Some p \<Rightarrow> Some p
                      | None \<Rightarrow> entry_updated e)
      in case date_str of
           None \<Rightarrow> (True, t)
         | Some ds \<Rightarrow>
             if ds = [] then (True, t)
             else (case parse ds of
                     None \<Rightarrow> (True, t)
                   | Some parsed \<Rightarrow>
                       (let entry_date =
                              (if utcoffset_us parsed = None
                               then parsed\<lparr>utcoffset_us := Some 0\<rparr> else parsed);
                            now = clk t;
                            t = t + 1
                        in case timedelta_days days of
                             None \<Rightarrow> (True, t)
                           | Some delta \<Rightarrow>
                               (case datetime_sub now delta of
                                  None \<Rightarrow> (True, t)
                                | Some wall \<Rightarrow>
                                    (let cutoff = \<lparr>wall_us = wall, utcoffset_us = Some 0\<rparr>
                                     in (instant entry_date \<ge> instant cutoff, t))))))"

text \<open>
  The specification's entry-level timestamp: the publication date when the entry has
  the attribute, the update date otherwise.
\<close>

definition entry_timestamp :: "entry \<Rightarrow> string option" where
  "entry_timestamp e =
     (if entry_published e \<noteq> None then entry_published e else entry_updated e)"

text \<open>
  The cutoff \<open>now - days\<close> exists as a datetime: the lookback is a \<^verbatim>\<open>timedelta\<close> and the
  difference lies in the years 1 to 9999.
\<close>

definition cutoff_exists :: "int \<Rightarrow> int \<Rightarrow> bool" where
  "cutoff_exists now days =
     (- 999999999 \<le> days \<and> days \<le> 999999999 \<and>
      0 \<le> now - days * day_us \<and> now - days * day_us \<le> datetime_max)"

section \<open>Content Normalizer\<close>

definition extract_content :: "(string \<Rightarrow> string option) \<Rightarrow> entry \<Rightarrow> string" where
  "extract_content strip_markup e =
     (let content =
            (case entry_content e of
               Some (block # _) \<Rightarrow> block
             | _ \<Rightarrow> (case entry_summary e of
                       Some s \<Rightarrow> s
                     | None \<Rightarrow> (case entry_description e of
                                  Some d \<Rightarrow> d
                                | None \<Rightarrow> [])))
      in if content \<noteq> [] then
           (case strip_markup content of Some plain \<Rightarrow> plain | None \<Rightarrow> content)
         else content)"

section \<open>Ledger Store\<close>

text \<open>
  \<^verbatim>\<open>os.path.join\<close> of a directory and a relative name, and \<^verbatim>\<open>os.path.dirname\<close>: the
  path up to its last slash, without trailing slashes unless it consists of slashes.
\<close>

definition path_join :: "string \<Rightarrow> string \<Rightarrow> string" where
  "path_join dir name =
     (if dir = [] \<or> last dir = CHR ''/'' then dir @ name else dir @ ''/'' @ name)"

definition is_slash :: "char \<Rightarrow> bool" where
  "is_slash c = (c = CHR ''/'')"

definition no_slash :: "char \<Rightarrow> bool" where
  "no_slash c = (c \<noteq> CHR ''/'')"

definition dirname :: "string \<Rightarrow> string" where
  "dirname p =
     (let head = rev (dropWhile no_slash (rev p))
      in if head \<noteq> [] \<and> \<not> list_all is_slash head
         then rev (dropWhile is_slash (rev head)) else head)"

definition history_file :: "processor \<Rightarrow> string" where
  "history_file self = path_join (output_dir self) ''processed_intelligence.pkl''"

text \<open>
  The pickle files of the file system: a path leads to a pickled dictionary, or to
  nothing readable (\<open>None\<close>: no file, or a file that does not unpickle).
  \<^verbatim>\<open>load_history\<close> starts from the empty dictionary in the second case.
\<close>

definition load_history :: "(string \<Rightarrow> ledger option) \<Rightarrow> string \<Rightarrow> ledger" where
  "load_history disk path = (case disk path of Some d \<Rightarrow> d | None \<Rightarrow> [])"

text \<open>
  \<^verbatim>\<open>save_history(self)\<close> catches whatever its body raises and goes on, so the file
  system stays as it was when the directory cannot be made (\<^verbatim>\<open>os.makedirs\<close> raises on
  the empty directory name, among others) or the file cannot be opened.
\<close>

definition save_history ::
  "env \<Rightarrow> processor \<Rightarrow> (string \<Rightarrow> ledger option) \<Rightarrow> (string \<Rightarrow> ledger option)" where
  "save_history ev self disk =
     (if dirname (history_file self) = [] then disk
      else (case write_result ev (history_file self) of
              Written \<Rightarrow> disk(history_file self := Some (processed_items self))
            | Refused \<Rightarrow> disk
            | Broken \<Rightarrow> disk(history_file self := None)))"

text \<open>The write of the history succeeds.\<close>

definition history_saved :: "env \<Rightarrow> processor \<Rightarrow> bool" where
  "history_saved ev self =
     (output_dir self \<noteq> [] \<and> write_result ev (history_file self) = Written)"

text \<open>\<^verbatim>\<open>__init__\<close>, with the pickle files it finds and the state of the clock.\<close>

definition processor_init ::
  "string option \<Rightarrow> string \<Rightarrow> string list \<Rightarrow> int \<Rightarrow> (string \<Rightarrow> ledger option) \<Rightarrow> nat
     \<Rightarrow> processor" where
  "processor_init opml out kws days disk t =
     \<lparr> opml_file = opml, output_dir = out, keywords = kws, days_back = days, feeds = [],
       results = [],
       processed_items = load_history disk (path_join out ''processed_intelligence.pkl''),
       ticks = t \<rparr>"

section \<open>Feed Ingestion Orchestrator\<close>

definition get_or_empty :: "string option \<Rightarrow> string" where
  "get_or_empty v = (case v of Some s \<Rightarrow> s | None \<Rightarrow> [])"

text \<open>
  The body of the loop over the entries of one feed in \<^verbatim>\<open>process_rss_feeds\<close>: the pair
  is the list \<^verbatim>\<open>items\<close> and the processor. Each \<^verbatim>\<open>continue\<close> returns the pair as it is,
  with the readings of the clock that the recency check has taken; the timestamp of
  the ledger is one more reading.
\<close>

definition process_entry :: "env \<Rightarrow> feed \<Rightarrow> entry \<Rightarrow> item list \<times> processor \<Rightarrow> item list \<times> processor" where
  "process_entry ev fd e acc =
     (let (items, self) = acc;
          entry_url = get_or_empty (entry_link e)
      in if entry_url = [] \<or> dict_has (processed_items self) entry_url then (items, self)
         else
           (let (recent, t) =
                   is_recent (parse_date ev) (days_back self) (clock ev) (ticks self) e;
                self = self\<lparr>ticks := t\<rparr>
            in if \<not> recent then (items, self)
               else
                 (let title = get_or_empty (entry_title e);
                      content = extract_content (get_text ev) e;
                      (has_keywords, matched_keywords) =
                         contains_keywords (keywords self) (title @ '' '' @ content)
                  in if has_keywords then
                       (let summary = generate_summary content title matched_keywords;
                            found = extract_entities (set_order ev) (title @ '' '' @ content);
                            new_item =
                              \<lparr> item_id = entry_url, item_title = title,
                                item_content = content, item_summary = summary,
                                item_url = entry_url,
                                item_date = get_or_empty (entry_published e),
                                item_source = feed_title fd, item_source_type = ''rss'',
                                item_keywords = matched_keywords, item_entities = found \<rparr>;
                            stamp = isoformat ev (clock ev (ticks self))
                        in (items @ [new_item],
                            self\<lparr>processed_items :=
                                    dict_set (processed_items self) entry_url (PyStr stamp),
                                 ticks := ticks self + 1\<rparr>))
                     else (items, self))))"

fun entries_loop :: "env \<Rightarrow> feed \<Rightarrow> entry list \<Rightarrow> item list \<times> processor \<Rightarrow> item list \<times> processor" where
  "entries_loop ev fd [] acc = acc"
| "entries_loop ev fd (e # rest) acc = entries_loop ev fd rest (process_entry ev fd e acc)"

text \<open>
  One round of the loop over the feeds: a feed that is not of type \<^verbatim>\<open>rss\<close> is passed
  over, a feed whose retrieval raises is reported and left, and of the entries of any
  other feed the slice \<^verbatim>\<open>[:50]\<close> is processed.
\<close>

definition process_feed :: "env \<Rightarrow> feed \<Rightarrow> item list \<times> processor \<Rightarrow> item list \<times> processor" where
  "process_feed ev fd acc =
     (if feed_type fd \<noteq> ''rss'' then acc
      else (case fetch ev (feed_url fd) of
              None \<Rightarrow> acc
            | Some entries \<Rightarrow> entries_loop ev fd (take 50 entries) acc))"

fun feeds_loop :: "env \<Rightarrow> feed list \<Rightarrow> item list \<times> processor \<Rightarrow> item list \<times> processor" where
  "feeds_loop ev [] acc = acc"
| "feeds_loop ev (fd # rest) acc = feeds_loop ev rest (process_feed ev fd acc)"

definition process_rss_feeds :: "env \<Rightarrow> processor \<Rightarrow> item list \<times> processor" where
  "process_rss_feeds ev self = feeds_loop ev (feeds self) ([], self)"

fun store_results :: "item list \<Rightarrow> (string \<times> item) list \<Rightarrow> (string \<times> item) list" where
  "store_results [] res = res"
| "store_results (it # rest) res = store_results rest (dict_set res (item_id it) it)"

text \<open>
  \<^verbatim>\<open>process_all_sources\<close>, with the pickle files before the run: the number of items,
  the processor, and the pickle files that \<^verbatim>\<open>save_history\<close> leaves.
\<close>

definition process_all_sources ::
  "env \<Rightarrow> processor \<Rightarrow> (string \<Rightarrow> ledger option)
     \<Rightarrow> nat \<times> processor \<times> (string \<Rightarrow> ledger option)" where
  "process_all_sources ev self disk =
     (let (rss_items, self) = process_rss_feeds ev self;
          all_items = rss_items;
          self = self\<lparr>results := store_results all_items (results self)\<rparr>
      in (length all_items, self, save_history ev self disk))"

text \<open>
  The specification's state machine for one entry, in its words: the terminal state
  that the entry reaches, by the four rules in their order.
\<close>

datatype entry_state = Skipped_duplicate | Skipped_stale | Rejected | Accepted

definition transition :: "env \<Rightarrow> processor \<Rightarrow> entry \<Rightarrow> entry_state" where
  "transition ev self e =
     (if entry_link e = None \<or> entry_link e = Some [] \<or>
         get_or_empty (entry_link e) \<in> set (map fst (processed_items self))
      then Skipped_duplicate
      else if \<not> fst (is_recent (parse_date ev) (days_back self) (clock ev) (ticks self) e)
      then Skipped_stale
      else if \<not> fst (contains_keywords (keywords self)
                       (get_or_empty (entry_title e) @ '' '' @ extract_content (get_text ev) e))
      then Rejected
      else Accepted)"

text \<open>
  The summary in the terms of the specification: a sentence qualifies when it is longer
  than thirty characters and a keyword occurs in it.
\<close>

definition qualifies :: "string list \<Rightarrow> string \<Rightarrow> bool" where
  "qualifies kws sentence = (length sentence > 30 \<and> (\<exists>k \<in> set kws. occurs_in k sentence))"

text \<open>
  Vocabulary for the runs of the orchestrator: the identifiers of a ledger; a later
  state of a processor (the same configuration, a ledger that has kept every
  identifier, a clock that has not gone back); an entry is settled in a state when no
  later state accepts it.
\<close>

definition ledger_ids :: "ledger \<Rightarrow> string set" where
  "ledger_ids d = fst ` set d"




section \<open>Downstream export\<close>

text \<open>
  \<^verbatim>\<open>export_to_json(pickle_file, output_dir)\<close> for a pickle that holds a dictionary: the
  argument is the content of the pickle file (\<open>None\<close> when there is no such file), the
  result is the document written (\<open>None\<close> when the function returns \<^verbatim>\<open>None\<close>).
\<close>

fun export_loop :: "ledger \<Rightarrow> item list \<Rightarrow> item list" where
  "export_loop [] items = items"
| "export_loop ((key, PyDict d) # rest) items = export_loop rest (items @ [d])"
| "export_loop ((key, PyStr t) # rest) items = export_loop rest items"

record export_data =
  total_items :: nat
  exported_items :: "item list"

definition export_to_json :: "ledger option \<Rightarrow> export_data option" where
  "export_to_json pickle_file =
     (case pickle_file of
        None \<Rightarrow> None
      | Some processed \<Rightarrow>
          (let items = export_loop processed []
           in Some \<lparr> total_items = length items, exported_items = items \<rparr>))"

text \<open>A ledger as the pipeline writes it holds timestamps only.\<close>

definition timestamps_only :: "ledger \<Rightarrow> bool" where
  "timestamps_only d = list_all (\<lambda>(k, v). case v of PyStr t \<Rightarrow> True | PyDict r \<Rightarrow> False) d"

section \<open>Feed Catalog Loader\<close>

text \<open>
  An element tree as \<^verbatim>\<open>ET.fromstring\<close> returns it: tag, attributes, children. The XML
  parser itself is a parameter (\<open>None\<close> when it raises). A path of the file system
  leads to no file, to a file that cannot be read as text, or to a text.
\<close>

datatype xml = Element string "(string \<times> string) list" "xml list"

datatype file_state = Missing | Unreadable | Text string

fun descendants :: "xml \<Rightarrow> xml list" where
  "descendants (Element tag attrs children) =
     concat (map (\<lambda>child. child # descendants child) children)"

text \<open>\<^verbatim>\<open>root.findall(".//outline[@xmlUrl]")\<close>, in document order.\<close>

definition is_feed_outline :: "xml \<Rightarrow> bool" where
  "is_feed_outline x =
     (case x of Element tag attrs children \<Rightarrow> tag = ''outline'' \<and> map_of attrs ''xmlUrl'' \<noteq> None)"

fun outline_loop :: "xml list \<Rightarrow> feed list \<Rightarrow> feed list" where
  "outline_loop [] fds = fds"
| "outline_loop (Element tag attrs children # rest) fds =
     (let title = (case map_of attrs ''title'' of Some t \<Rightarrow> t | None \<Rightarrow> ''Unnamed Feed'');
          url = get_or_empty (map_of attrs ''xmlUrl'')
      in if url \<noteq> [] then
           outline_loop rest
             (fds @ [\<lparr> feed_title = title, feed_url = url, feed_type = ''rss'' \<rparr>])
         else outline_loop rest fds)"

text \<open>\<^verbatim>\<open>&(?!amp;|lt;|gt;|apos;|quot;)\<close>\<close>

definition known_entities :: "string list" where
  "known_entities = [''amp;'', ''lt;'', ''gt;'', ''apos;'', ''quot;'']"

definition bare_ampersand :: regex where
  "bare_ampersand = Seq (Cls ((=) CHR ''&'')) (NotAhead (Alts (map Lit known_entities)))"

datatype report = No_opml_file | Loaded_feeds nat | Error_parsing_opml

text \<open>
  \<^verbatim>\<open>parse_opml(self)\<close>: the processor with the feeds appended, and what the function
  prints. The function has no other exit.
\<close>

definition parse_opml ::
  "(string \<Rightarrow> xml option) \<Rightarrow> (string \<Rightarrow> file_state) \<Rightarrow> processor \<Rightarrow> processor \<times> report" where
  "parse_opml fromstring fs self =
     (case opml_file self of
        None \<Rightarrow> (self, No_opml_file)
      | Some path \<Rightarrow>
          if path = [] then (self, No_opml_file)
          else (case fs path of
                  Missing \<Rightarrow> (self, No_opml_file)
                | Unreadable \<Rightarrow> (self, Error_parsing_opml)
                | Text content \<Rightarrow>
                    (let fixed_content = re_sub bare_ampersand ''&amp;'' content
                     in case fromstring fixed_content of
                          None \<Rightarrow> (self, Error_parsing_opml)
                        | Some root \<Rightarrow>
                            (let self = self\<lparr>feeds :=
                                   outline_loop (filter is_feed_outline (descendants root))
                                     (feeds self)\<rparr>
                             in (self, Loaded_feeds (length (feeds self)))))))"

text \<open>
  Escaping one ampersand by hand: an ampersand that does not start one of the known
  entities is written as \<^verbatim>\<open>&amp;\<close>. A document and its correctly escaped form are
  related by a chain of such steps.
\<close>

inductive escape_step :: "string \<Rightarrow> string \<Rightarrow> bool" where
  "\<not> list_ex (startswith post) known_entities \<Longrightarrow>
     escape_step (pre @ ''&'' @ post) (pre @ ''&amp;'' @ post)"

text \<open>
  The pre-pass in the specification's words: every bare ampersand that is not followed
  by a known entity is rewritten into \<^verbatim>\<open>&amp;\<close>.
\<close>

fun rewrite_bare_ampersands :: "string \<Rightarrow> string" where
  "rewrite_bare_ampersands [] = []"
| "rewrite_bare_ampersands (c # cs) =
     (if c = CHR ''&'' \<and> \<not> list_ex (startswith cs) known_entities
      then ''&amp;'' @ rewrite_bare_ampersands cs
      else c # rewrite_bare_ampersands cs)"

section \<open>Program entry point\<close>

text \<open>
  The parsed command line, and \<^verbatim>\<open>main\<close> up to the call of \<^verbatim>\<open>parse_opml\<close>: the
  processor as configured and loaded, or the exception that reading the keyword file
  raises (no such file, or any other). The lines of a text file end at the newline
  character. The removal of the history file under \<^verbatim>\<open>--reset\<close> comes after the
  constructor has loaded the history, so it does not change the processor.
\<close>

record args =
  arg_keywords :: string
  arg_feeds :: string
  arg_output_dir :: string
  arg_days_back :: int
  arg_gov :: bool
  arg_reset :: bool

datatype error = FileNotFoundError | OtherError

fun file_lines :: "string \<Rightarrow> string \<Rightarrow> string list" where
  "file_lines cur [] = (if cur = [] then [] else [cur])"
| "file_lines cur (c # cs) =
     (if c = CHR 0x0A then (cur @ [c]) # file_lines [] cs else file_lines (cur @ [c]) cs)"

definition keyword_lines :: "string \<Rightarrow> string list" where
  "keyword_lines content = map strip (filter nonblank (file_lines [] content))"

definition main_setup ::
  "(string \<Rightarrow> xml option) \<Rightarrow> (string \<Rightarrow> file_state) \<Rightarrow> (string \<Rightarrow> ledger option) \<Rightarrow> nat \<Rightarrow> args
     \<Rightarrow> error + processor" where
  "main_setup fromstring fs pickles t a =
     (case fs ''keywords.txt'' of
        Missing \<Rightarrow> Inl FileNotFoundError
      | Unreadable \<Rightarrow> Inl OtherError
      | Text content \<Rightarrow>
          (let kws = keyword_lines content;
               self = processor_init (Some ''Reader_Feeds.opml'') (arg_output_dir a) kws
                        (arg_days_back a) pickles t
           in Inr (fst (parse_opml fromstring fs self))))"

section \<open>Example data\<close>

text \<open>
  A small world on which the theorems below are instantiated: the clock stands at
  2026-01-11 and advances by a microsecond with each of its first ten readings, the
  lookback is three days, the only keyword is \<open>fine\<close>, no pickle file exists and every
  write succeeds.
\<close>

definition january_2026 :: "int \<Rightarrow> int" where
  "january_2026 day = (739616 + (day - 1)) * day_us"

definition ex_parse :: "string \<Rightarrow> pydatetime option" where
  "ex_parse s =
     (if s = ''2026-01-09'' then Some \<lparr>wall_us = january_2026 9, utcoffset_us = None\<rparr>
      else if s = ''2026-01-08'' then Some \<lparr>wall_us = january_2026 8, utcoffset_us = None\<rparr>
      else if s = ''2026-01-02'' then Some \<lparr>wall_us = january_2026 2, utcoffset_us = None\<rparr>
      else None)"

definition ex_new :: entry where
  "ex_new = \<lparr> entry_link = Some ''http://a/1'', entry_title = Some ''Regulator issues fine'',
      entry_published = Some ''2026-01-09'', entry_updated = None, entry_content = None,
      entry_summary = Some ''A fine was issued.'', entry_description = None \<rparr>"

definition ex_edge :: entry where
  "ex_edge = \<lparr> entry_link = Some ''http://a/4'', entry_title = Some ''Fine upheld'',
      entry_published = Some ''2026-01-08'', entry_updated = None, entry_content = None,
      entry_summary = None, entry_description = None \<rparr>"

definition ex_old :: entry where
  "ex_old = \<lparr> entry_link = Some ''http://a/2'', entry_title = Some ''An older fine'',
      entry_published = Some ''2026-01-02'', entry_updated = None, entry_content = None,
      entry_summary = None, entry_description = None \<rparr>"

definition ex_quiet :: entry where
  "ex_quiet = \<lparr> entry_link = Some ''http://a/3'', entry_title = Some ''Weather'',
      entry_published = None, entry_updated = None, entry_content = None,
      entry_summary = Some ''Rain.'', entry_description = None \<rparr>"

definition ex_isoformat :: "int \<Rightarrow> string" where
  "ex_isoformat t =
     (if t = january_2026 11 then ''2026-01-11T00:00:00''
      else if t = january_2026 11 + 1 then ''2026-01-11T00:00:00.000001''
      else ''2026-01-11T00:00:00.000002'')"

definition ex_env :: env where
  "ex_env = \<lparr> fetch = (\<lambda>url. if url = ''http://a/rss''
                               then Some [ex_new, ex_new, ex_old, ex_quiet] else None),
      parse_date = ex_parse, get_text = Some, set_order = remdups,
      clock = (\<lambda>n. january_2026 11 + int (min n 10)), isoformat = ex_isoformat,
      write_result = (\<lambda>path. Written) \<rparr>"

definition ex_feed :: feed where
  "ex_feed = \<lparr> feed_title = ''Agency news'', feed_url = ''http://a/rss'', feed_type = ''rss'' \<rparr>"

definition ex_disk :: "string \<Rightarrow> ledger option" where
  "ex_disk path = None"

definition ex_self :: processor where
  "ex_self = (processor_init (Some ''Reader_Feeds.opml'') ''output'' [''fine''] 3 ex_disk 0)
               \<lparr>feeds := [ex_feed]\<rparr>"



definition ex_numbered :: "nat \<Rightarrow> entry" where
  "ex_numbered n = ex_quiet\<lparr>entry_link := Some (replicate (Suc n) CHR ''x'')\<rparr>"

definition ex_malformed :: string where
  "ex_malformed = ''<opml><outline title='A & B' xmlUrl='http://a/rss?x=1&y=2' /></opml>''"

definition ex_escaped :: string where
  "ex_escaped = ''<opml><outline title='A &amp; B' xmlUrl='http://a/rss?x=1&amp;y=2' /></opml>''"

definition ex_fromstring :: "string \<Rightarrow> xml option" where
  "ex_fromstring s =
     (if s = ex_escaped
      then Some (Element ''opml'' []
                  [Element ''outline''
                     [(''title'', ''A & B''), (''xmlUrl'', ''http://a/rss?x=1&y=2'')] []])
      else None)"

definition ex_files :: "string \<Rightarrow> string \<Rightarrow> file_state" where
  "ex_files catalog path =
     (if path = ''keywords.txt'' then Text (''fine'' @ [CHR 0x0A, CHR 0x0A] @ '' data protection '')
      else if path = ''Reader_Feeds.opml'' then Text catalog
      else Missing)"

definition ex_args :: args where
  "ex_args = \<lparr> arg_keywords = ''keywords.txt'', arg_feeds = ''Reader_Feeds.opml'',
      arg_output_dir = ''output'', arg_days_back = 3, arg_gov = False, arg_reset = False \<rparr>"

section \<open>Strings and patterns: lemmas\<close>

lemma startswith_prefix: "startswith s p = prefix p s"
  by (induction s p rule: startswith.induct) auto

lemma str_in_sublist: "str_in p s = sublist p s"
  by (induction s) (auto simp: startswith_prefix sublist_Cons_right)

lemma str_in_occurs: "str_in (str_lower k) (str_lower h) = occurs_in k h"
  by (auto simp: str_in_sublist sublist_def occurs_in_def)

lemma keyword_loop_filter:
  "keyword_loop t ks acc = acc @ filter (\<lambda>k. str_in (str_lower k) t) ks"
  by (induction ks arbitrary: acc) auto

lemma contains_keywords_eq:
  "contains_keywords kws text =
     (kws = [] \<or> (\<exists>k \<in> set kws. occurs_in k text),
      filter (\<lambda>k. occurs_in k text) kws)"
proof (cases "kws = []")
  case True
  then show ?thesis by (simp add: contains_keywords_def)
next
  case False
  have "(filter (\<lambda>k. occurs_in k text) kws \<noteq> []) = (\<exists>k \<in> set kws. occurs_in k text)"
    by (simp add: filter_empty_conv)
  with False show ?thesis
    by (simp add: contains_keywords_def keyword_loop_filter str_in_occurs)
qed

lemma rmatch_Lit: "rmatch (Lit t) s = (if startswith s t then [drop (length t) s] else [])"
proof (induction t arbitrary: s rule: Lit.induct)
  case 1
  then show ?case by (simp add: Empty_def split: list.splits)
next
  case (2 x)
  then show ?case by (cases s) auto
next
  case (3 x y ys)
  then show ?case by (cases s) auto
qed

lemma rmatch_Alts: "(rmatch (Alts rs) s = []) = (\<forall>r \<in> set rs. rmatch r s = [])"
  by (induction rs rule: Alts.induct) (auto split: list.splits)

lemma rmatch_bare_ampersand:
  "rmatch bare_ampersand s =
     (case s of [] \<Rightarrow> []
      | c # cs \<Rightarrow> if c = CHR ''&'' \<and> \<not> list_ex (startswith cs) known_entities then [cs] else [])"
  by (cases s) (auto simp: bare_ampersand_def rmatch_Alts rmatch_Lit list_ex_iff)

lemma scan_bare_ampersand:
  "(case scan bare_ampersand False gap s of (found, tail) \<Rightarrow> sub_pieces ''&amp;'' found @ tail)
     = gap @ rewrite_bare_ampersands s"
proof (induction s arbitrary: gap)
  case Nil
  show ?case by (simp add: scan.simps [of _ _ _ "[]"] match_at_def rmatch_bare_ampersand)
next
  case (Cons c cs)
  show ?case
  proof (cases "c = CHR ''&'' \<and> \<not> list_ex (startswith cs) known_entities")
    case True
    then have m: "match_at bare_ampersand False (c # cs) = Some cs"
      by (simp add: match_at_def rmatch_bare_ampersand)
    have step: "scan bare_ampersand False gap (c # cs) =
        (case scan bare_ampersand False [] cs of (found, tail) \<Rightarrow> ((gap, [c]) # found, tail))"
      by (simp add: scan.simps [of bare_ampersand False gap "c # cs"] m)
    have "(case scan bare_ampersand False gap (c # cs) of
             (found, tail) \<Rightarrow> sub_pieces ''&amp;'' found @ tail)
        = gap @ ''&amp;'' @
            (case scan bare_ampersand False [] cs of
               (found, tail) \<Rightarrow> sub_pieces ''&amp;'' found @ tail)"
      by (simp add: step split: prod.splits)
    also have "\<dots> = gap @ ''&amp;'' @ rewrite_bare_ampersands cs"
      using Cons [of "[]"] by simp
    also have "\<dots> = gap @ rewrite_bare_ampersands (c # cs)"
      using True by simp
    finally show ?thesis .
  next
    case False
    then have m: "match_at bare_ampersand False (c # cs) = None"
      by (auto simp add: match_at_def rmatch_bare_ampersand)
    have step: "scan bare_ampersand False gap (c # cs) = scan bare_ampersand False (gap @ [c]) cs"
      by (simp add: scan.simps [of bare_ampersand False gap "c # cs"] m)
    show ?thesis using False Cons [of "gap @ [c]"]
      by (auto simp add: step split: prod.splits)
  qed
qed

lemma re_sub_bare_ampersand:
  "re_sub bare_ampersand ''&amp;'' s = rewrite_bare_ampersands s"
  using scan_bare_ampersand [of "[]" s] by (simp add: re_sub_def)

lemma startswith_over_ampersand:
  "CHR ''&'' \<notin> set t \<Longrightarrow> startswith (a @ CHR ''&'' # b) t = startswith a t"
proof (induction a t rule: startswith.induct)
  case (1 s)
  then show ?case by simp
next
  case (2 p ps)
  then show ?case by auto
next
  case (3 c cs p ps)
  then show ?case by auto
qed

lemma lookahead_over_ampersand:
  "list_ex (startswith (a @ CHR ''&'' # b)) known_entities = list_ex (startswith a) known_entities"
  by (simp add: known_entities_def startswith_over_ampersand)

lemma rewrite_escaped:
  "\<not> list_ex (startswith post) known_entities \<Longrightarrow>
     rewrite_bare_ampersands (pre @ ''&amp;'' @ post) = rewrite_bare_ampersands (pre @ ''&'' @ post)"
proof (induction pre)
  case Nil
  then show ?case by (simp add: known_entities_def)
next
  case (Cons c pre)
  have "list_ex (startswith (pre @ ''&amp;'' @ post)) known_entities
      = list_ex (startswith (pre @ ''&'' @ post)) known_entities"
    using lookahead_over_ampersand [of pre "''amp;'' @ post"] lookahead_over_ampersand [of pre post]
    by simp
  with Cons show ?case by simp
qed

lemma escape_step_rewrite:
  "escape_step d d' \<Longrightarrow> rewrite_bare_ampersands d' = rewrite_bare_ampersands d"
  by (induction rule: escape_step.induct) (rule rewrite_escaped)

lemma escape_chain_rewrite:
  "escape_step\<^sup>*\<^sup>* d d' \<Longrightarrow> rewrite_bare_ampersands d' = rewrite_bare_ampersands d"
  by (induction rule: rtranclp_induct) (simp_all add: escape_step_rewrite)

section \<open>Keyword Matcher: the contract\<close>

text \<open>
  Claim C6. For every haystack and configured keyword list, the matcher answers
  \<open>True\<close> exactly when the list is empty or some keyword occurs (lowercase in
  lowercase) in the haystack, and the second component lists the keywords that occur,
  in configured order; it is empty when the list is empty.
\<close>

theorem contains_keywords_contract:
  "contains_keywords kws text =
     (kws = [] \<or> (\<exists>k \<in> set kws. occurs_in k text),
      filter (\<lambda>k. occurs_in k text) kws)"
  by (rule contains_keywords_eq)

theorem contains_keywords_contract_witness:
  "contains_keywords [''data protection'', ''fine'']
       ''Data Protection Authority fines Acme Corp $5M''
     = (True, [''data protection'', ''fine''])
   \<and> contains_keywords [] ''Data Protection Authority fines Acme Corp $5M'' = (True, [])"
proof -
  have a: "occurs_in ''data protection'' ''Data Protection Authority fines Acme Corp $5M''"
    unfolding str_in_occurs [symmetric] by code_simp
  have b: "occurs_in ''fine'' ''Data Protection Authority fines Acme Corp $5M''"
    unfolding str_in_occurs [symmetric] by code_simp
  show ?thesis
    using contains_keywords_contract [of "[''data protection'', ''fine'']"
            "''Data Protection Authority fines Acme Corp $5M''"]
          contains_keywords_contract [of "[]" "''Data Protection Authority fines Acme Corp $5M''"]
          a b
    by simp
qed

section \<open>Recency Filter: the contract\<close>

lemma is_recent_ticks:
  "snd (is_recent parse days clk t e) = t \<or> snd (is_recent parse days clk t e) = t + 1"
  by (auto simp: is_recent_def Let_def split: option.splits)

lemma is_recent_eq:
  "is_recent parse days clk t e =
     (case entry_timestamp e of
        None \<Rightarrow> (True, t)
      | Some ds \<Rightarrow>
          if ds = [] then (True, t)
          else (case parse ds of
                  None \<Rightarrow> (True, t)
                | Some d \<Rightarrow>
                    (if cutoff_exists (clk t) days then instant d \<ge> clk t - days * day_us
                     else True, t + 1)))"
  by (auto simp: is_recent_def entry_timestamp_def instant_def Let_def cutoff_exists_def
        timedelta_days_def datetime_sub_def
        split: option.splits)

text \<open>
  Claim C5, against the claim as stated: with a lookback of minus three million days
  the cutoff lies beyond the year 9999, the subtraction raises, and the filter answers
  \<open>True\<close> for an entry whose date parses and lies before the clock reading minus the
  lookback.
\<close>

theorem is_recent_counterexample:
  "fst (is_recent ex_parse (- 3000000) (clock ex_env) 0 ex_old)
   \<and> entry_timestamp ex_old = Some ''2026-01-02''
   \<and> ex_parse ''2026-01-02'' = Some \<lparr>wall_us = january_2026 2, utcoffset_us = None\<rparr>
   \<and> \<not> (instant \<lparr>wall_us = january_2026 2, utcoffset_us = None\<rparr>
          \<ge> clock ex_env 0 - (- 3000000) * day_us)"
  by code_simp

text \<open>
  Claim C5, amended. When the entry's timestamp parses, the filter reads the clock
  once; if the cutoff, the reading minus the lookback in days, exists as a datetime,
  the filter answers \<open>True\<close> exactly when the parsed date, read as UTC when it has no
  time zone, is not before the cutoff (so the cutoff itself is included), and if the
  cutoff does not exist it answers \<open>True\<close>. When the timestamp is absent, empty or does
  not parse, the filter answers \<open>True\<close> without reading the clock.
\<close>

theorem is_recent_contract:
  "(entry_timestamp e = Some ds \<and> ds \<noteq> [] \<and> parse ds = Some d \<longrightarrow>
      is_recent parse days clk t e =
        (if cutoff_exists (clk t) days then instant d \<ge> clk t - days * day_us else True,
         t + 1))
   \<and> (entry_timestamp e = None \<or> entry_timestamp e = Some [] \<or>
        (\<exists>ds. entry_timestamp e = Some ds \<and> parse ds = None) \<longrightarrow>
      is_recent parse days clk t e = (True, t))"
  by (auto simp: is_recent_eq)

theorem is_recent_contract_witness:
  "is_recent ex_parse 3 (clock ex_env) 0 ex_edge = (True, 1)
   \<and> is_recent ex_parse 3 (clock ex_env) 1 ex_edge = (False, 2)
   \<and> is_recent ex_parse (- 3000000) (clock ex_env) 0 ex_edge = (True, 1)
   \<and> is_recent ex_parse 3 (clock ex_env) 0 ex_quiet = (True, 0)"
proof -
  let ?d = "\<lparr>wall_us = january_2026 8, utcoffset_us = None\<rparr>"
  have ts: "entry_timestamp ex_edge = Some ''2026-01-08''" "entry_timestamp ex_quiet = None"
    by code_simp+
  have p: "ex_parse ''2026-01-08'' = Some ?d" by code_simp
  have c0: "cutoff_exists (clock ex_env 0) 3" "cutoff_exists (clock ex_env 1) 3"
    "\<not> cutoff_exists (clock ex_env 0) (- 3000000)"
    by code_simp+
  have v: "instant ?d \<ge> clock ex_env 0 - 3 * day_us"
    "\<not> instant ?d \<ge> clock ex_env 1 - 3 * day_us"
    by code_simp+
  from is_recent_contract [where e = ex_edge and ds = "''2026-01-08''" and parse = ex_parse
         and d = ?d and days = 3 and clk = "clock ex_env" and t = 0]
       is_recent_contract [where e = ex_edge and ds = "''2026-01-08''" and parse = ex_parse
         and d = ?d and days = 3 and clk = "clock ex_env" and t = 1]
       is_recent_contract [where e = ex_edge and ds = "''2026-01-08''" and parse = ex_parse
         and d = ?d and days = "- 3000000" and clk = "clock ex_env" and t = 0]
       is_recent_contract [where e = ex_quiet and parse = ex_parse and days = 3
         and clk = "clock ex_env" and t = 0]
       ts p c0 v
  show ?thesis by simp
qed

section \<open>Summary: the policy\<close>

lemma relevant_loop_take:
  "length acc < 6 \<Longrightarrow>
     relevant_loop kws ss acc = acc @ take (6 - length acc) (filter (qualifies kws) (map strip ss))"
proof (induction ss arbitrary: acc)
  case Nil
  then show ?case by simp
next
  case (Cons s ss)
  have q: "list_ex (mentions (str_lower (strip s))) kws = (\<exists>k \<in> set kws. occurs_in k (strip s))"
    by (simp add: list_ex_iff mentions_def str_in_occurs)
  show ?case
  proof (cases "qualifies kws (strip s)")
    case False
    with Cons q show ?thesis by (auto simp: qualifies_def Let_def)
  next
    case True
    show ?thesis
    proof (cases "length acc = 5")
      case True
      with \<open>qualifies kws (strip s)\<close> q show ?thesis by (simp add: qualifies_def Let_def)
    next
      case False
      with Cons.prems have l: "length (acc @ [strip s]) < 6" by simp
      have "6 - length acc = Suc (6 - length (acc @ [strip s]))" using l by simp
      with Cons.IH [OF l] True q l show ?thesis by (simp add: qualifies_def Let_def)
    qed
  qed
qed

lemma strip_nonblank: "map strip (filter nonblank xs) = filter (\<lambda>s. s \<noteq> []) (map strip xs)"
  by (induction xs) (simp_all add: nonblank_def)

text \<open>
  Claim C7, against the claim as stated: on a body that opens with an ellipsis and has
  no qualifying sentence, the first two non-empty sentences are \<open>and so it begins\<close> and
  \<open>The council met today\<close>, but the summary is the first of them alone.
\<close>

theorem summary_fallback_counterexample:
  "generate_summary ''...and so it begins. The council met today. More later.'' ''News'' []
     = ''and so it begins.''
   \<and> take 2 (map strip (filter nonblank
        (re_split sentence_end ''...and so it begins. The council met today. More later.'')))
     = [''and so it begins'', ''The council met today'']
   \<and> \<not> str_in ''The council met today''
        (generate_summary ''...and so it begins. The council met today. More later.'' ''News'' [])"
  by code_simp

text \<open>
  Claim C7, amended. The summary is a body followed by the keyword line when the
  keyword list is not empty. The pieces are the trimmed parts of the content between
  runs of sentence-terminal punctuation. The body is the first six qualifying pieces
  joined with a full stop and a space and closed with a full stop; when no piece
  qualifies it is the non-empty ones among the first two pieces, joined and closed the
  same way.
\<close>

theorem generate_summary_policy:
  "generate_summary content title kws =
     (let pieces = map strip (re_split sentence_end content);
          relevant = take 6 (filter (qualifies kws) pieces)
      in (if relevant \<noteq> [] then str_join ''. '' relevant @ ''.''
          else str_join ''. '' (filter (\<lambda>s. s \<noteq> []) (take 2 pieces)) @ ''.'')
         @ (if kws \<noteq> [] then keyword_line kws else []))"
  by (simp add: generate_summary_def Let_def relevant_loop_take strip_nonblank take_map)

theorem generate_summary_policy_witness:
  "generate_summary ''The authority issued a large fine today. Short one.'' ''News'' [''fine'']
     = ''The authority issued a large fine today.'' @ keyword_line [''fine'']"
proof -
  have p: "map strip (re_split sentence_end ''The authority issued a large fine today. Short one.'')
      = [''The authority issued a large fine today'', ''Short one'', []]"
    by code_simp
  have o: "occurs_in ''fine'' ''The authority issued a large fine today''"
    unfolding str_in_occurs [symmetric] by code_simp
  have q: "qualifies [''fine''] ''The authority issued a large fine today''"
    using o by (simp add: qualifies_def)
  have n: "\<not> qualifies [''fine''] ''Short one''" "\<not> qualifies [''fine''] []"
    by (simp_all add: qualifies_def)
  show ?thesis
    using generate_summary_policy
            [where content = "''The authority issued a large fine today. Short one.''"
               and title = "''News''" and kws = "[''fine'']"]
    by (simp add: p q n)
qed

section \<open>Entities: the example of the specification\<close>

lemma set_order_single:
  "distinct (f [x]) \<Longrightarrow> set (f [x]) = {x} \<Longrightarrow> f [x] = [x]"
proof -
  assume d: "distinct (f [x])" and s: "set (f [x]) = {x}"
  show ?thesis
  proof (cases "f [x]")
    case Nil
    with s show ?thesis by simp
  next
    case (Cons y ys)
    with s d have "y = x" and "set ys \<subseteq> {x}" and "x \<notin> set ys" by auto
    then have "ys = []" by (cases ys) auto
    with Cons \<open>y = x\<close> show ?thesis by simp
  qed
qed

text \<open>
  Claim C4, on the code: whatever order the set enumeration takes, the example text
  yields the company and the agency that the claim names, and the amount \<open>$1\<close>: the
  decimal part of the pattern wants two digits, so the match ends before \<open>.5 million\<close>.
\<close>

theorem extract_entities_example:
  assumes "\<forall>xs. distinct (f xs) \<and> set (f xs) = set xs"
  shows "extract_entities f ''Acme Technologies was fined $1.5 million by the Department of Justice''
          = \<lparr> companies = [''Acme Technologies''], agencies = [''Department of Justice''],
              amounts = [''$1''], people = [] \<rparr>"
proof -
  let ?T = "''Acme Technologies was fined $1.5 million by the Department of Justice''"
  have a: "take 5 (findall amount_pattern ?T) = [''$1'']" by code_simp
  have b: "agency_loop agency_patterns ?T [] = [''Department of Justice'']" by code_simp
  have c: "company_loop (str_split ?T) (enumerate 0 (str_split ?T)) [] = [''Acme Technologies'']"
    by code_simp
  have s: "\<And>x. f [x] = [x]" using assms set_order_single [of f] by simp
  have e: "f [] = []" using assms by (metis set_empty)
  show ?thesis
    unfolding extract_entities_def Let_def a b c by (simp add: s e)
qed

theorem extract_entities_example_witness:
  "amounts (extract_entities remdups
      ''Acme Technologies was fined $1.5 million by the Department of Justice'') = [''$1'']"
  using extract_entities_example [of remdups] by simp

section \<open>Orchestrator: lemmas\<close>

lemma dict_set_absent: "k \<notin> fst ` set d \<Longrightarrow> dict_set d k v = d @ [(k, v)]"
  by (induction d) auto

lemma dict_has_keys: "dict_has d k = (k \<in> ledger_ids d)"
  by (simp add: dict_has_def map_of_eq_None_iff ledger_ids_def)

lemma accepted_iff:
  "(transition ev self e = Accepted) =
     (get_or_empty (entry_link e) \<noteq> [] \<and>
      get_or_empty (entry_link e) \<notin> ledger_ids (processed_items self) \<and>
      fst (is_recent (parse_date ev) (days_back self) (clock ev) (ticks self) e) \<and>
      fst (contains_keywords (keywords self)
             (get_or_empty (entry_title e) @ '' '' @ extract_content (get_text ev) e)))"
  by (auto simp: transition_def get_or_empty_def ledger_ids_def split: option.splits)

lemma process_entry_not_accepted:
  "transition ev self e \<noteq> Accepted \<Longrightarrow>
     \<exists>n. n \<le> 1 \<and> process_entry ev fd e (items, self) = (items, self\<lparr>ticks := ticks self + n\<rparr>)"
proof -
  assume na: "transition ev self e \<noteq> Accepted"
  show ?thesis
  proof (cases "get_or_empty (entry_link e) = [] \<or>
                get_or_empty (entry_link e) \<in> ledger_ids (processed_items self)")
    case True
    then have "process_entry ev fd e (items, self) = (items, self\<lparr>ticks := ticks self + 0\<rparr>)"
      by (auto simp: process_entry_def Let_def dict_has_keys)
    then show ?thesis by blast
  next
    case False
    obtain r t' where ir:
      "is_recent (parse_date ev) (days_back self) (clock ev) (ticks self) e = (r, t')"
      by (cases "is_recent (parse_date ev) (days_back self) (clock ev) (ticks self) e")
    with is_recent_ticks [of "parse_date ev" "days_back self" "clock ev" "ticks self" e]
    obtain n where n: "n \<le> 1" "t' = ticks self + n" by auto
    from na False ir have "process_entry ev fd e (items, self) = (items, self\<lparr>ticks := t'\<rparr>)"
      by (auto simp: accepted_iff process_entry_def Let_def dict_has_keys split: prod.splits)
    with n show ?thesis by blast
  qed
qed

lemma process_entry_accepted:
  "transition ev self e = Accepted \<Longrightarrow>
     \<exists>it v n. n \<le> 2 \<and> item_id it = get_or_empty (entry_link e) \<and>
       process_entry ev fd e (items, self) =
         (items @ [it],
          self\<lparr>processed_items := processed_items self @
                  [(get_or_empty (entry_link e), PyStr v)],
               ticks := ticks self + n\<rparr>)"
proof -
  assume a: "transition ev self e = Accepted"
  obtain r t' where ir:
    "is_recent (parse_date ev) (days_back self) (clock ev) (ticks self) e = (r, t')"
    by (cases "is_recent (parse_date ev) (days_back self) (clock ev) (ticks self) e")
  with is_recent_ticks [of "parse_date ev" "days_back self" "clock ev" "ticks self" e]
  obtain n where n: "n \<le> 1" "t' = ticks self + n" by auto
  from a ir have "\<exists>it v. item_id it = get_or_empty (entry_link e) \<and>
       process_entry ev fd e (items, self) =
         (items @ [it],
          self\<lparr>processed_items := processed_items self @
                  [(get_or_empty (entry_link e), PyStr v)],
               ticks := t' + 1\<rparr>)"
    by (auto simp: accepted_iff process_entry_def Let_def dict_has_keys dict_set_absent
          ledger_ids_def split: prod.splits)
  then obtain it v where
    "item_id it = get_or_empty (entry_link e)"
    "process_entry ev fd e (items, self) =
         (items @ [it],
          self\<lparr>processed_items := processed_items self @
                  [(get_or_empty (entry_link e), PyStr v)],
               ticks := ticks self + (n + 1)\<rparr>)"
    using n by auto
  moreover have "n + 1 \<le> 2" using n by simp
  ultimately show ?thesis by blast
qed
















lemma entries_loop_dedup:
  "entries_loop ev fd es (items, self) = (items', self') \<Longrightarrow>
     \<exists>new. items' = items @ new \<and> distinct (map item_id new) \<and>
       set (map item_id new) \<inter> ledger_ids (processed_items self) = {} \<and>
       ledger_ids (processed_items self') = ledger_ids (processed_items self) \<union> set (map item_id new) \<and>
       subseq (map item_id new) (map (\<lambda>e. get_or_empty (entry_link e)) es)"
proof (induction es arbitrary: items self)
  case Nil
  then show ?case by simp
next
  case (Cons e es)
  obtain items1 self1 where step: "process_entry ev fd e (items, self) = (items1, self1)"
    by (cases "process_entry ev fd e (items, self)")
  with Cons.prems have rest: "entries_loop ev fd es (items1, self1) = (items', self')" by simp
  from Cons.IH [OF rest] obtain new where new:
    "items' = items1 @ new" "distinct (map item_id new)"
    "set (map item_id new) \<inter> ledger_ids (processed_items self1) = {}"
    "ledger_ids (processed_items self') = ledger_ids (processed_items self1) \<union> set (map item_id new)"
    "subseq (map item_id new) (map (\<lambda>e. get_or_empty (entry_link e)) es)"
    by blast
  show ?case
  proof (cases "transition ev self e = Accepted")
    case True
    from process_entry_accepted [OF True, of fd items] step obtain it where it:
      "item_id it = get_or_empty (entry_link e)" "items1 = items @ [it]"
      "ledger_ids (processed_items self1) = insert (item_id it) (ledger_ids (processed_items self))"
      by (auto simp: ledger_ids_def)
    from True it have fresh: "item_id it \<notin> ledger_ids (processed_items self)"
      by (simp add: accepted_iff)
    have "items' = items @ (it # new)" using new it by simp
    moreover have "distinct (map item_id (it # new))" using new it by auto
    moreover have "set (map item_id (it # new)) \<inter> ledger_ids (processed_items self) = {}"
      using new it fresh by auto
    moreover have "ledger_ids (processed_items self') =
        ledger_ids (processed_items self) \<union> set (map item_id (it # new))"
      using new it by auto
    moreover have "subseq (map item_id (it # new)) (map (\<lambda>e. get_or_empty (entry_link e)) (e # es))"
      using new it by simp
    ultimately show ?thesis by blast
  next
    case False
    from process_entry_not_accepted [OF False, of fd items] step
    have "items1 = items" "processed_items self1 = processed_items self" by auto
    with new show ?thesis by (auto intro: subseq_Cons')
  qed
qed



section \<open>Orchestrator: the transitions of an entry\<close>




section \<open>Orchestrator: bounded work\<close>

lemma process_entry_fetch:
  "process_entry (ev\<lparr>fetch := f\<rparr>) fd e acc = process_entry ev fd e acc"
  by (cases acc) (simp add: process_entry_def Let_def split: prod.splits)

lemma entries_loop_fetch:
  "entries_loop (ev\<lparr>fetch := f\<rparr>) fd es acc = entries_loop ev fd es acc"
  by (induction es arbitrary: acc) (simp_all add: process_entry_fetch)

lemma entries_loop_bound:
  "length (fst (entries_loop ev fd es acc)) \<le> length (fst acc) + length es \<and>
   ticks (snd (entries_loop ev fd es acc)) \<le> ticks (snd acc) + 2 * length es"
proof (induction es arbitrary: acc)
  case Nil
  then show ?case by simp
next
  case (Cons e es)
  obtain items self where acc: "acc = (items, self)" by (cases acc)
  obtain items1 self1 where step: "process_entry ev fd e (items, self) = (items1, self1)"
    by (cases "process_entry ev fd e (items, self)")
  have "length items1 \<le> length items + 1 \<and> ticks self1 \<le> ticks self + 2"
  proof (cases "transition ev self e = Accepted")
    case True
    with process_entry_accepted [OF True, of fd items] step show ?thesis by auto
  next
    case False
    with process_entry_not_accepted [OF False, of fd items] step show ?thesis by auto
  qed
  moreover from Cons.IH [of "(items1, self1)"]
  have "length (fst (entries_loop ev fd es (items1, self1))) \<le> length items1 + length es \<and>
        ticks (snd (entries_loop ev fd es (items1, self1))) \<le> ticks self1 + 2 * length es"
    by simp
  ultimately show ?case using acc step by simp
qed

text \<open>
  Claim C8. What a feed contributes depends on the first fifty entries of the source
  only, in their order: two sources that agree on their first fifty entries give the
  same result, one round of the loop over the feeds adds at most fifty items and reads
  the clock at most a hundred times, and the identifiers of the new items follow the
  order of the first fifty entries.
\<close>

theorem process_feed_bounded:
  "(take 50 entries = take 50 entries' \<longrightarrow>
      process_feed (ev\<lparr>fetch := \<lambda>url. Some entries\<rparr>) fd acc =
      process_feed (ev\<lparr>fetch := \<lambda>url. Some entries'\<rparr>) fd acc)
   \<and> length (fst (process_feed ev fd acc)) \<le> length (fst acc) + 50
   \<and> ticks (snd (process_feed ev fd acc)) \<le> ticks (snd acc) + 100
   \<and> (feed_type fd = ''rss'' \<and> fetch ev (feed_url fd) = Some entries \<longrightarrow>
        (\<exists>new. fst (process_feed ev fd acc) = fst acc @ new \<and>
           subseq (map item_id new)
             (map (\<lambda>e. get_or_empty (entry_link e)) (take 50 entries))))"
proof -
  have a: "take 50 entries = take 50 entries' \<longrightarrow>
      process_feed (ev\<lparr>fetch := \<lambda>url. Some entries\<rparr>) fd acc =
      process_feed (ev\<lparr>fetch := \<lambda>url. Some entries'\<rparr>) fd acc"
    by (simp add: process_feed_def entries_loop_fetch)
  have b: "length (fst (process_feed ev fd acc)) \<le> length (fst acc) + 50
   \<and> ticks (snd (process_feed ev fd acc)) \<le> ticks (snd acc) + 100"
  proof (cases "feed_type fd \<noteq> ''rss''")
    case True
    then show ?thesis by (simp add: process_feed_def)
  next
    case False
    show ?thesis
    proof (cases "fetch ev (feed_url fd)")
      case None
      with False show ?thesis by (simp add: process_feed_def)
    next
      case (Some es)
      have "min (length es) 50 \<le> 50" by simp
      with entries_loop_bound [of ev fd "take 50 es" acc]
      have "length (fst (entries_loop ev fd (take 50 es) acc)) \<le> length (fst acc) + 50
          \<and> ticks (snd (entries_loop ev fd (take 50 es) acc)) \<le> ticks (snd acc) + 100"
        by (simp del: min.bounded_iff) linarith
      with False Some show ?thesis by (simp add: process_feed_def)
    qed
  qed
  have c: "feed_type fd = ''rss'' \<and> fetch ev (feed_url fd) = Some entries \<longrightarrow>
        (\<exists>new. fst (process_feed ev fd acc) = fst acc @ new \<and>
           subseq (map item_id new)
             (map (\<lambda>e. get_or_empty (entry_link e)) (take 50 entries)))"
  proof
    assume h: "feed_type fd = ''rss'' \<and> fetch ev (feed_url fd) = Some entries"
    obtain items self where acc: "acc = (items, self)" by (cases acc)
    obtain items' self' where
      r: "entries_loop ev fd (take 50 entries) (items, self) = (items', self')"
      by (cases "entries_loop ev fd (take 50 entries) (items, self)")
    from entries_loop_dedup [OF r] obtain new where
      "items' = items @ new"
      "subseq (map item_id new) (map (\<lambda>e. get_or_empty (entry_link e)) (take 50 entries))"
      by blast
    with h acc r show "\<exists>new. fst (process_feed ev fd acc) = fst acc @ new \<and>
           subseq (map item_id new)
             (map (\<lambda>e. get_or_empty (entry_link e)) (take 50 entries))"
      by (auto simp: process_feed_def)
  qed
  from a b c show ?thesis by blast
qed

theorem process_feed_bounded_witness:
  "process_feed (ex_env\<lparr>fetch := \<lambda>url. Some (map ex_numbered [0..<500])\<rparr>) ex_feed ([], ex_self)
     = process_feed (ex_env\<lparr>fetch := \<lambda>url. Some (map ex_numbered [0..<50])\<rparr>) ex_feed ([], ex_self)
   \<and> length (fst (process_feed (ex_env\<lparr>fetch := \<lambda>url. Some (map ex_numbered [0..<500])\<rparr>)
                     ex_feed ([], ex_self))) \<le> 50"
proof -
  have "take 50 (map ex_numbered [0..<500]) = take 50 (map ex_numbered [0..<50])"
    by (simp add: take_map)
  with process_feed_bounded [where entries = "map ex_numbered [0..<500]"
         and entries' = "map ex_numbered [0..<50]" and ev = ex_env and fd = ex_feed
         and acc = "([], ex_self)"]
       process_feed_bounded [where entries = "[]" and entries' = "[]"
         and ev = "ex_env\<lparr>fetch := \<lambda>url. Some (map ex_numbered [0..<500])\<rparr>"
         and fd = ex_feed and acc = "([], ex_self)"]
  show ?thesis by simp
qed

section \<open>Orchestrator: deduplication and idempotence\<close>

lemma dirname_history_file:
  "(dirname (path_join out ''processed_intelligence.pkl'') = []) = (out = [])"
proof (cases "out = []")
  case True
  then show ?thesis by (simp add: dirname_def path_join_def no_slash_def)
next
  case False
  then have ne: "out \<noteq> []" .
  have "\<exists>pre. path_join out ''processed_intelligence.pkl''
          = pre @ ''/'' @ ''processed_intelligence.pkl''"
  proof (cases "last out = CHR ''/''")
    case True
    with ne have "butlast out @ ''/'' = out" by (metis append_butlast_last_id)
    then have "butlast out @ ''/'' @ ''processed_intelligence.pkl''
        = out @ ''processed_intelligence.pkl''"
      by (metis append_assoc)
    with True have "path_join out ''processed_intelligence.pkl''
        = butlast out @ ''/'' @ ''processed_intelligence.pkl''"
      by (simp add: path_join_def)
    then show ?thesis by blast
  next
    case False
    with ne have "path_join out ''processed_intelligence.pkl''
        = out @ ''/'' @ ''processed_intelligence.pkl''"
      by (simp add: path_join_def)
    then show ?thesis by blast
  qed
  then obtain pre where p: "path_join out ''processed_intelligence.pkl''
          = pre @ ''/'' @ ''processed_intelligence.pkl''" by blast
  have h: "rev (dropWhile no_slash (rev (pre @ ''/'' @ ''processed_intelligence.pkl'')))
      = pre @ ''/''"
    by (simp add: no_slash_def)
  have "dirname (pre @ ''/'' @ ''processed_intelligence.pkl'') \<noteq> []"
    unfolding dirname_def h by (auto simp: Let_def dropWhile_eq_Nil_conv list_all_iff)
  with p False show ?thesis by simp
qed

lemma history_saved_file:
  "history_saved ev self \<Longrightarrow>
     save_history ev self disk (history_file self) = Some (processed_items self)"
  by (simp add: history_saved_def save_history_def history_file_def dirname_history_file)


lemma process_entry_output_dir:
  "output_dir (snd (process_entry ev fd e acc)) = output_dir (snd acc)"
proof -
  obtain items self where acc: "acc = (items, self)" by (cases acc)
  show ?thesis
  proof (cases "transition ev self e = Accepted")
    case True
    with process_entry_accepted [OF True, of fd items] acc show ?thesis by auto
  next
    case False
    with process_entry_not_accepted [OF False, of fd items] acc show ?thesis by auto
  qed
qed

lemma entries_loop_output_dir:
  "output_dir (snd (entries_loop ev fd es acc)) = output_dir (snd acc)"
  by (induction es arbitrary: acc) (simp_all add: process_entry_output_dir)

lemma process_feed_output_dir:
  "output_dir (snd (process_feed ev fd acc)) = output_dir (snd acc)"
  by (simp add: process_feed_def entries_loop_output_dir split: option.splits)

lemma feeds_loop_output_dir:
  "output_dir (snd (feeds_loop ev fds acc)) = output_dir (snd acc)"
  by (induction fds arbitrary: acc) (simp_all add: process_feed_output_dir)




section \<open>Downstream export of the ledger\<close>

lemma export_loop_timestamps: "timestamps_only d \<Longrightarrow> export_loop d acc = acc"
  by (induction d acc rule: export_loop.induct) (simp_all add: timestamps_only_def)

lemma process_entry_timestamps:
  "timestamps_only (processed_items (snd acc)) \<Longrightarrow>
     timestamps_only (processed_items (snd (process_entry ev fd e acc)))"
proof -
  assume t: "timestamps_only (processed_items (snd acc))"
  obtain items self where acc: "acc = (items, self)" by (cases acc)
  show ?thesis
  proof (cases "transition ev self e = Accepted")
    case True
    with process_entry_accepted [OF True, of fd items] t acc show ?thesis
      by (auto simp: timestamps_only_def)
  next
    case False
    with process_entry_not_accepted [OF False, of fd items] t acc show ?thesis by auto
  qed
qed

lemma entries_loop_timestamps:
  "timestamps_only (processed_items (snd acc)) \<Longrightarrow>
     timestamps_only (processed_items (snd (entries_loop ev fd es acc)))"
  by (induction es arbitrary: acc) (simp_all add: process_entry_timestamps)

lemma process_feed_timestamps:
  "timestamps_only (processed_items (snd acc)) \<Longrightarrow>
     timestamps_only (processed_items (snd (process_feed ev fd acc)))"
  by (simp add: process_feed_def entries_loop_timestamps split: option.splits)

lemma feeds_loop_timestamps:
  "timestamps_only (processed_items (snd acc)) \<Longrightarrow>
     timestamps_only (processed_items (snd (feeds_loop ev fds acc)))"
  by (induction fds arbitrary: acc) (simp_all add: process_feed_timestamps)

text \<open>
  Claim C3, on the code: the ledger that the pipeline persists holds a timestamp
  string for each identifier, and the export passes over every value that is not a
  dictionary. So when the write of the history succeeds, the export of the history
  file has no items, however many identifiers the ledger holds; and when the
  processor has loaded its ledger from the history file, the export of that file
  after the run has no items whatever becomes of the write.
\<close>

theorem export_of_pipeline_ledger:
  "timestamps_only (processed_items self) \<Longrightarrow>
     (history_saved ev self \<longrightarrow>
        export_to_json (snd (snd (process_all_sources ev self disk)) (history_file self))
          = Some \<lparr> total_items = 0, exported_items = [] \<rparr>)
     \<and> (processed_items self = load_history disk (history_file self) \<longrightarrow>
          (\<forall>d. export_to_json (snd (snd (process_all_sources ev self disk)) (history_file self))
                 = Some d \<longrightarrow> d = \<lparr> total_items = 0, exported_items = [] \<rparr>))"
proof -
  assume t: "timestamps_only (processed_items self)"
  obtain items self' where r: "process_rss_feeds ev self = (items, self')"
    by (cases "process_rss_feeds ev self")
  from feeds_loop_timestamps [of "([], self)" ev "feeds self"] t r
  have t': "timestamps_only (processed_items self')" by (simp add: process_rss_feeds_def)
  from feeds_loop_output_dir [of ev "feeds self" "([], self)"] r
  have od: "output_dir self' = output_dir self" by (simp add: process_rss_feeds_def)
  let ?final = "self'\<lparr>results := store_results items (results self')\<rparr>"
  have hf: "history_file ?final = history_file self" using od by (simp add: history_file_def)
  have pi: "processed_items ?final = processed_items self'" by simp
  have out: "snd (snd (process_all_sources ev self disk)) = save_history ev ?final disk"
    using r by (simp add: process_all_sources_def Let_def)
  have e': "export_to_json (Some (processed_items self'))
      = Some \<lparr> total_items = 0, exported_items = [] \<rparr>"
    using t' by (simp add: export_to_json_def Let_def export_loop_timestamps)
  have a: "history_saved ev self \<longrightarrow>
        export_to_json (snd (snd (process_all_sources ev self disk)) (history_file self))
          = Some \<lparr> total_items = 0, exported_items = [] \<rparr>"
  proof
    assume "history_saved ev self"
    with od have "history_saved ev ?final"
      by (simp add: history_saved_def history_file_def)
    from history_saved_file [OF this, of disk]
    have "save_history ev ?final disk (history_file ?final) = Some (processed_items ?final)" .
    with hf pi
    have "save_history ev ?final disk (history_file self) = Some (processed_items self')"
      by simp
    with out e' show "export_to_json (snd (snd (process_all_sources ev self disk))
        (history_file self)) = Some \<lparr> total_items = 0, exported_items = [] \<rparr>"
      by simp
  qed
  have b: "processed_items self = load_history disk (history_file self) \<longrightarrow>
          (\<forall>d. export_to_json (snd (snd (process_all_sources ev self disk)) (history_file self))
                 = Some d \<longrightarrow> d = \<lparr> total_items = 0, exported_items = [] \<rparr>)"
  proof (intro impI allI)
    fix d
    assume l: "processed_items self = load_history disk (history_file self)"
      and x: "export_to_json (snd (snd (process_all_sources ev self disk)) (history_file self))
                 = Some d"
    have old: "\<And>c. disk (history_file self) = Some c \<Longrightarrow>
        export_to_json (Some c) = Some \<lparr> total_items = 0, exported_items = [] \<rparr>"
      using l t by (simp add: load_history_def export_to_json_def Let_def
          export_loop_timestamps)
    have "save_history ev ?final disk (history_file self) = disk (history_file self)
        \<or> save_history ev ?final disk (history_file self) = Some (processed_items self')
        \<or> save_history ev ?final disk (history_file self) = None"
      using hf by (auto simp: save_history_def split: write_result.splits)
    with x out e' old show "d = \<lparr> total_items = 0, exported_items = [] \<rparr>"
      by (cases "disk (history_file self)") (auto simp: export_to_json_def)
  qed
  from a b show ?thesis by blast
qed

theorem export_of_pipeline_ledger_witness:
  "fst (process_all_sources ex_env ex_self ex_disk) = 1
   \<and> map fst (processed_items (fst (snd (process_all_sources ex_env ex_self ex_disk))))
       = [''http://a/1'']
   \<and> export_to_json (snd (snd (process_all_sources ex_env ex_self ex_disk))
        (history_file ex_self))
       = Some \<lparr> total_items = 0, exported_items = [] \<rparr>"
proof -
  have a: "fst (process_all_sources ex_env ex_self ex_disk) = 1" by code_simp
  have b: "map fst (processed_items (fst (snd (process_all_sources ex_env ex_self ex_disk))))
      = [''http://a/1'']"
    by code_simp
  have t: "timestamps_only (processed_items ex_self)" by code_simp
  have h: "history_saved ex_env ex_self" by code_simp
  from a b h export_of_pipeline_ledger [OF t, of ex_env ex_disk] show ?thesis by simp
qed

section \<open>Feed Catalog Loader: the contract\<close>

text \<open>
  Claim C9. The loader has no exceptional exit. Without a path, or with a path to no
  file, it leaves the processor as it is (its feed list is empty when the loader is
  called on a new processor) and reports that there is no catalog; with a file that
  cannot be read, or a document that the XML parser rejects after the ampersand
  repair, it leaves the processor as it is and reports the error. And a document
  gives the same result as any document obtained from it by escaping unescaped
  ampersands by hand, in particular as its correctly escaped form.
\<close>

theorem parse_opml_contract:
  "(opml_file self = None \<or> opml_file self = Some [] \<or>
      (\<exists>path. opml_file self = Some path \<and> fs path = Missing)
     \<longrightarrow> parse_opml fromstring fs self = (self, No_opml_file))
   \<and> (\<forall>path. opml_file self = Some path \<and> path \<noteq> [] \<and>
         (fs path = Unreadable \<or>
          (\<exists>content. fs path = Text content \<and>
             fromstring (rewrite_bare_ampersands content) = None))
     \<longrightarrow> parse_opml fromstring fs self = (self, Error_parsing_opml))
   \<and> feeds (processor_init opml out kws days history t) = []
   \<and> (\<forall>path d d'. opml_file self = Some path \<and> fs path = Text d \<and> fs' path = Text d' \<and>
         escape_step\<^sup>*\<^sup>* d d'
     \<longrightarrow> parse_opml fromstring fs self = parse_opml fromstring fs' self)"
  by (auto simp: parse_opml_def Let_def re_sub_bare_ampersand escape_chain_rewrite
        processor_init_def
        split: option.splits file_state.splits)

theorem parse_opml_contract_witness:
  "parse_opml ex_fromstring (ex_files ex_malformed) ex_self
     = parse_opml ex_fromstring (ex_files ex_escaped) ex_self
   \<and> map feed_url (feeds (fst (parse_opml ex_fromstring (ex_files ex_malformed) ex_self)))
     = [''http://a/rss'', ''http://a/rss?x=1&y=2'']"
proof -
  let ?mid = "''<opml><outline title='A &amp; B' xmlUrl='http://a/rss?x=1&y=2' /></opml>''"
  have s1: "escape_step ex_malformed ?mid"
    using escape_step.intros
            [of "'' B' xmlUrl='http://a/rss?x=1&y=2' /></opml>''" "''<opml><outline title='A ''"]
    by (simp add: ex_malformed_def known_entities_def)
  have s2: "escape_step ?mid ex_escaped"
    using escape_step.intros
            [of "''y=2' /></opml>''" "''<opml><outline title='A &amp; B' xmlUrl='http://a/rss?x=1''"]
    by (simp add: ex_escaped_def known_entities_def)
  from s1 s2 have chain: "escape_step\<^sup>*\<^sup>* ex_malformed ex_escaped" by simp
  have p: "opml_file ex_self = Some ''Reader_Feeds.opml''" by code_simp
  have f1: "ex_files ex_malformed ''Reader_Feeds.opml'' = Text ex_malformed"
    by (simp add: ex_files_def)
  have f2: "ex_files ex_escaped ''Reader_Feeds.opml'' = Text ex_escaped"
    by (simp add: ex_files_def)
  have v: "map feed_url (feeds (fst (parse_opml ex_fromstring (ex_files ex_malformed) ex_self)))
     = [''http://a/rss'', ''http://a/rss?x=1&y=2'']"
    by code_simp
  from parse_opml_contract [where self = ex_self and fs = "ex_files ex_malformed"
         and fromstring = ex_fromstring and fs' = "ex_files ex_escaped"] p f1 f2 chain v
  show ?thesis by blast
qed

section \<open>Program entry point: the paths it reads\<close>

text \<open>
  Claim C10. What \<^verbatim>\<open>main\<close> loads does not depend on the arguments \<^verbatim>\<open>--keywords\<close> and
  \<^verbatim>\<open>--feeds\<close>: two invocations that differ in these two values only, on file systems
  that agree at the paths \<^verbatim>\<open>keywords.txt\<close> and \<^verbatim>\<open>Reader_Feeds.opml\<close>, load the same
  processor or fail alike; the keywords are the lines of \<^verbatim>\<open>keywords.txt\<close> and the
  catalog is the file \<^verbatim>\<open>Reader_Feeds.opml\<close>.
\<close>

theorem main_ignores_paths:
  "(fs' ''keywords.txt'' = fs ''keywords.txt'' \<and>
    fs' ''Reader_Feeds.opml'' = fs ''Reader_Feeds.opml'' \<longrightarrow>
      main_setup fromstring fs' pickles t (a\<lparr>arg_keywords := k, arg_feeds := f\<rparr>) =
      main_setup fromstring fs pickles t a)
   \<and> (\<forall>self. main_setup fromstring fs pickles t a = Inr self \<longrightarrow>
        (\<exists>content. fs ''keywords.txt'' = Text content \<and> keywords self = keyword_lines content)
        \<and> opml_file self = Some ''Reader_Feeds.opml''
        \<and> (\<exists>self0. opml_file self0 = Some ''Reader_Feeds.opml'' \<and> feeds self0 = [] \<and>
              self = fst (parse_opml fromstring fs self0)))"
proof -
  have a: "fs' ''keywords.txt'' = fs ''keywords.txt'' \<and>
    fs' ''Reader_Feeds.opml'' = fs ''Reader_Feeds.opml'' \<longrightarrow>
      main_setup fromstring fs' pickles t (a\<lparr>arg_keywords := k, arg_feeds := f\<rparr>) =
      main_setup fromstring fs pickles t a"
    by (auto simp: main_setup_def parse_opml_def processor_init_def Let_def
          split: file_state.splits option.splits)
  have b: "\<forall>self. main_setup fromstring fs pickles t a = Inr self \<longrightarrow>
        (\<exists>content. fs ''keywords.txt'' = Text content \<and> keywords self = keyword_lines content)
        \<and> opml_file self = Some ''Reader_Feeds.opml''
        \<and> (\<exists>self0. opml_file self0 = Some ''Reader_Feeds.opml'' \<and> feeds self0 = [] \<and>
              self = fst (parse_opml fromstring fs self0))"
  proof (intro allI impI)
    fix self
    assume r: "main_setup fromstring fs pickles t a = Inr self"
    then obtain content where c: "fs ''keywords.txt'' = Text content"
      by (auto simp: main_setup_def split: file_state.splits)
    let ?p0 = "processor_init (Some ''Reader_Feeds.opml'') (arg_output_dir a)
                 (keyword_lines content) (arg_days_back a) pickles t"
    from r c have s: "self = fst (parse_opml fromstring fs ?p0)"
      by (simp add: main_setup_def Let_def)
    have k: "keywords (fst (parse_opml fromstring fs ?p0)) = keyword_lines content
          \<and> opml_file (fst (parse_opml fromstring fs ?p0)) = Some ''Reader_Feeds.opml''"
      by (auto simp: parse_opml_def processor_init_def Let_def
            split: file_state.splits option.splits)
    have "opml_file ?p0 = Some ''Reader_Feeds.opml'' \<and> feeds ?p0 = []"
      by (simp add: processor_init_def)
    with s k c show "(\<exists>content. fs ''keywords.txt'' = Text content \<and>
           keywords self = keyword_lines content)
        \<and> opml_file self = Some ''Reader_Feeds.opml''
        \<and> (\<exists>self0. opml_file self0 = Some ''Reader_Feeds.opml'' \<and> feeds self0 = [] \<and>
              self = fst (parse_opml fromstring fs self0))"
      by blast
  qed
  from a b show ?thesis by blast
qed

theorem main_ignores_paths_witness:
  "main_setup ex_fromstring (ex_files ex_escaped) (\<lambda>path. None) 0
       (ex_args\<lparr>arg_keywords := ''other.txt'', arg_feeds := ''other.opml''\<rparr>)
     = main_setup ex_fromstring (ex_files ex_escaped) (\<lambda>path. None) 0 ex_args
   \<and> (\<exists>self. main_setup ex_fromstring (ex_files ex_escaped) (\<lambda>path. None) 0 ex_args = Inr self
         \<and> keywords self = [''fine'', ''data protection'']
         \<and> map feed_url (feeds self) = [''http://a/rss?x=1&y=2''])"
proof -
  have v: "map_sum id (\<lambda>self. (keywords self, map feed_url (feeds self)))
             (main_setup ex_fromstring (ex_files ex_escaped) (\<lambda>path. None) 0 ex_args)
      = Inr ([''fine'', ''data protection''], [''http://a/rss?x=1&y=2''])"
    by code_simp
  then have "\<exists>self. main_setup ex_fromstring (ex_files ex_escaped) (\<lambda>path. None) 0 ex_args = Inr self
         \<and> keywords self = [''fine'', ''data protection'']
         \<and> map feed_url (feeds self) = [''http://a/rss?x=1&y=2'']"
    by (cases "main_setup ex_fromstring (ex_files ex_escaped) (\<lambda>path. None) 0 ex_args") auto
  with main_ignores_paths [where fs = "ex_files ex_escaped" and fs' = "ex_files ex_escaped"
         and fromstring = ex_fromstring and pickles = "\<lambda>path. None" and t = 0 and a = ex_args
         and k = "''other.txt''" and f = "''other.opml''"]
  show ?thesis by simp
qed

end
